theory Spec2Isabelle
  imports Main
begin

section \<open>Values, elements and child nodes\<close>

text \<open>
  JavaScript values as the component sees them. \<open>Ref a\<close> is a reference to an object the
  caller owns (an array of selected values, a callback, a style sheet entry): the component
  never looks inside one, so two references are the same value exactly when they are the
  same reference. \<open>Arr\<close> and \<open>Obj\<close> are the array and object literals the component itself
  writes; an object keeps its properties in insertion order.
\<close>

datatype jsval =
    Undefined
  | Null
  | Bool bool
  | Num int
  | Str string
  | Ref nat
  | Arr "jsval list"
  | Obj "(string \<times> jsval) list"

text \<open>
  The two errors a construction can end in: the \<open>Error\<close> the component throws, with its
  message, and the error React throws on a child that is a plain object
  ("Objects are not valid as a React child").
\<close>

datatype error = Error string | ObjectsNotValid

text \<open>
  An object is its list of properties. Reading \<open>o[k]\<close> from an object does not throw:
  a missing property reads as \<open>undefined\<close>.
\<close>

definition lookup :: "(string \<times> jsval) list \<Rightarrow> string \<Rightarrow> jsval" where
  "lookup ps k = (case map_of ps k of None \<Rightarrow> Undefined | Some v \<Rightarrow> v)"

text \<open>Writing \<open>o[k] = v\<close>: an existing property keeps its place, a new one is appended.\<close>

fun assign :: "string \<Rightarrow> jsval \<Rightarrow> (string \<times> jsval) list \<Rightarrow> (string \<times> jsval) list" where
  "assign k v [] = [(k, v)]"
| "assign k v (p # ps) = (if fst p = k then (k, v) # ps else p # assign k v ps)"

text \<open>
  The component type of an element. \<open>child.type === SegmentedButton\<close> compares with the
  component imported from \<^verbatim>\<open>./SegmentedButton\<close>; every other component or host tag is
  \<open>Other\<close> with its name.
\<close>

datatype component = SegmentedButton | Other string

text \<open>An element: its type, its key (\<open>None\<close> for \<open>null\<close>) and its props.\<close>

record element =
  el_type :: component
  el_key :: "string option"
  el_props :: "(string \<times> jsval) list"

text \<open>
  What can stand as \<open>children\<close>: \<open>null\<close>/\<open>undefined\<close>, a boolean, a string or number,
  an element, an array of these, or a plain object, which the type \<open>React.ReactNode\<close> of
  the props admits and React does not accept as a child.
\<close>

datatype node =
    NNull
  | NBool bool
  | NText string
  | NElement element
  | NArray "node list"
  | NObject

section \<open>The host's child utilities\<close>

text \<open>\<open>index.toString(36)\<close>.\<close>

definition digit36 :: "nat \<Rightarrow> char" where
  "digit36 d = ''0123456789abcdefghijklmnopqrstuvwxyz'' ! d"

function toString36 :: "nat \<Rightarrow> string" where
  "toString36 n = (if n < 36 then [digit36 n] else toString36 (n div 36) @ [digit36 (n mod 36)])"
  by pat_completeness auto
termination
  by (relation "measure id") auto

declare toString36.simps [simp del]

text \<open>
  React's \<open>escape\<close> of an element key (\<open>=\<close> becomes \<open>=0\<close>, \<open>:\<close> becomes \<open>=2\<close>, after a
  leading \<open>$\<close>) and \<open>escapeUserProvidedKey\<close> (one more \<open>/\<close> after every run of them).
\<close>

definition escape :: "string \<Rightarrow> string" where
  "escape key = CHR ''$'' # concat (map (\<lambda>c. if c = CHR ''='' then ''=0''
                                          else if c = CHR '':'' then ''=2'' else [c]) key)"

fun escapeUserProvidedKey :: "string \<Rightarrow> string" where
  "escapeUserProvidedKey [] = []"
| "escapeUserProvidedKey [c] = (if c = CHR ''/'' then [c, CHR ''/''] else [c])"
| "escapeUserProvidedKey (c # c' # cs) =
     (if c = CHR ''/'' \<and> c' \<noteq> CHR ''/'' then c # CHR ''/'' # escapeUserProvidedKey (c' # cs)
      else c # escapeUserProvidedKey (c' # cs))"

text \<open>\<open>getElementKey(child, index)\<close>: the escaped key of a keyed element, else the index.\<close>

fun getElementKey :: "node \<Rightarrow> nat \<Rightarrow> string" where
  "getElementKey (NElement e) index =
     (case el_key e of Some k \<Rightarrow> escape k | None \<Rightarrow> toString36 index)"
| "getElementKey n index = toString36 index"

text \<open>
  \<open>React.Children\<close> walks a node depth first (\<open>mapIntoArray\<close>). Arrays are opened and are
  not themselves visited; every other node is visited once, a boolean as \<open>null\<close>. Each
  visited node has a name: \<open>.\<close> and its key or index for a child of the outermost array
  (or for a lone child), and the array's name, \<open>:\<close> and its key or index further in.
  \<open>walk\<close> gives the visited nodes with their names, in order.
\<close>

fun walk :: "string \<Rightarrow> node \<Rightarrow> (string \<times> node) list"
  and walks :: "string \<Rightarrow> nat \<Rightarrow> node list \<Rightarrow> (string \<times> node) list" where
  "walk nameSoFar (NArray ns) =
     walks (if nameSoFar = [] then ''.'' else nameSoFar @ '':'') 0 ns"
| "walk nameSoFar (NBool b) =
     [(if nameSoFar = [] then ''.'' @ getElementKey (NBool b) 0 else nameSoFar, NNull)]"
| "walk nameSoFar n =
     [(if nameSoFar = [] then ''.'' @ getElementKey n 0 else nameSoFar, n)]"
| "walks nextNamePrefix i [] = []"
| "walks nextNamePrefix i (child # rest) =
     walk (nextNamePrefix @ getElementKey child i) child @ walks nextNamePrefix (Suc i) rest"

definition slots :: "node \<Rightarrow> node list" where
  "slots c = map snd (walk [] c)"

definition names :: "node \<Rightarrow> string list" where
  "names c = map fst (walk [] c)"

text \<open>
  \<open>React.Children.count(children)\<close>: 0 when \<open>children\<close> is \<open>null\<close> or \<open>undefined\<close>;
  otherwise the walk throws when it reaches a plain object, and the count is the number of
  visited nodes when there is none.
\<close>

definition Children_count :: "node \<Rightarrow> error + nat" where
  "Children_count c =
     (if c = NNull then Inr 0
      else if NObject \<in> set (slots c) then Inl ObjectsNotValid
      else Inr (length (slots c)))"

text \<open>
  \<open>cloneAndReplaceKey\<close>, and the key \<open>React.Children.map\<close> gives an element the callback
  returned for the child named \<open>childKey\<close>: the child's name, after the element's own key
  when that is not empty and is not the key of the child it was returned for.
\<close>

definition cloneAndReplaceKey :: "element \<Rightarrow> string \<Rightarrow> element" where
  "cloneAndReplaceKey e newKey = e\<lparr>el_key := Some newKey\<rparr>"

definition mapped_key :: "string \<Rightarrow> node \<Rightarrow> element \<Rightarrow> string" where
  "mapped_key childKey child mapped =
     (case el_key mapped of
        None \<Rightarrow> childKey
      | Some k \<Rightarrow>
          if k \<noteq> [] \<and> (case child of NElement c \<Rightarrow> el_key c \<noteq> Some k | _ \<Rightarrow> True)
          then escapeUserProvidedKey k @ ''/'' @ childKey
          else childKey)"

text \<open>
  What one callback result contributes to the array \<open>React.Children.map\<close> returns:
  nothing for \<open>null\<close>; for an array, its own non-null visited nodes, the elements keyed
  under the child's name; a re-keyed copy for an element; itself otherwise. Walking a
  returned array throws on a plain object as any walk does.
\<close>

fun emit :: "string \<Rightarrow> node \<Rightarrow> node \<Rightarrow> error + node list" where
  "emit childKey child NNull = Inr []"
| "emit childKey child (NArray ns) =
     (if NObject \<in> set (slots (NArray ns)) then Inl ObjectsNotValid
      else Inr (concat (map (\<lambda>(name, n).
             case n of
               NNull \<Rightarrow> []
             | NElement e \<Rightarrow>
                 [NElement (cloneAndReplaceKey e (escapeUserProvidedKey childKey @ ''/'' @ name))]
             | _ \<Rightarrow> [n])
           (walk [] (NArray ns)))))"
| "emit childKey child (NElement e) =
     Inr [NElement (cloneAndReplaceKey e (mapped_key childKey child e))]"
| "emit childKey child n = Inr [n]"

text \<open>
  \<open>React.Children.map(children, fn)\<close>: \<open>children\<close> itself when it is \<open>null\<close> or
  \<open>undefined\<close>; otherwise the walk, calling \<open>fn(child, i)\<close> on each visited node with
  \<open>i\<close> counting from 0 and collecting what the results contribute, and throwing at the
  first plain object.
\<close>

fun mapIntoArray :: "(node \<Rightarrow> nat \<Rightarrow> node) \<Rightarrow> nat \<Rightarrow> (string \<times> node) list \<Rightarrow> error + node list" where
  "mapIntoArray fn i [] = Inr []"
| "mapIntoArray fn i ((name, child) # rest) =
     (if child = NObject then Inl ObjectsNotValid
      else case emit name child (fn child i) of
             Inl e \<Rightarrow> Inl e
           | Inr xs \<Rightarrow> (case mapIntoArray fn (Suc i) rest of
                         Inl e \<Rightarrow> Inl e
                       | Inr ys \<Rightarrow> Inr (xs @ ys)))"

definition Children_map :: "node \<Rightarrow> (node \<Rightarrow> nat \<Rightarrow> node) \<Rightarrow> error + node" where
  "Children_map c fn =
     (if c = NNull then Inr NNull
      else case mapIntoArray fn 0 (walk [] c) of
             Inl e \<Rightarrow> Inl e
           | Inr xs \<Rightarrow> Inr (NArray xs))"

text \<open>
  \<open>React.cloneElement(element, config)\<close>: same type and key, the properties of \<open>config\<close>
  written over a copy of the element's, except the names React reserves (a key or ref in
  \<open>config\<close> would replace the element's; the component gives neither). Where the
  element's type declares \<open>defaultProps\<close>, an \<open>undefined\<close> in \<open>config\<close> is written as
  the declared default of that property. \<open>defaultProps\<close> is what the element's type
  declares, \<open>None\<close> when it declares none.
\<close>

definition RESERVED_PROPS :: "string list" where
  "RESERVED_PROPS = [''key'', ''ref'', ''__self'', ''__source'']"

definition cloneElement ::
  "(string \<times> jsval) list option \<Rightarrow> element \<Rightarrow> (string \<times> jsval) list \<Rightarrow> element" where
  "cloneElement defaultProps e config =
     e\<lparr>el_props :=
         fold (\<lambda>(k, v) ps.
                 if k \<in> set RESERVED_PROPS then ps
                 else case defaultProps of
                        Some d \<Rightarrow> if v = Undefined then assign k (lookup d k) ps
                                  else assign k v ps
                      | None \<Rightarrow> assign k v ps)
              config (el_props e)\<rparr>"

text \<open>
  \<open>React.createContext(d)\<close> with \<open>useContext\<close>: a consumer reads the value of the nearest
  provider above it, and the default \<open>d\<close> when there is none.
\<close>

definition useContext :: "'a \<Rightarrow> 'a option \<Rightarrow> 'a" where
  "useContext d provider = (case provider of None \<Rightarrow> d | Some v \<Rightarrow> v)"

text \<open>
  \<open>StyleSheet.flatten\<close>: how the host resolves a style value to one property list.
  An array is resolved left to right, a later entry writing over an earlier one; a falsy
  entry adds nothing. \<open>sheet\<close> gives the properties of a style held by reference.
\<close>

fun flatten :: "(nat \<Rightarrow> (string \<times> jsval) list) \<Rightarrow> jsval \<Rightarrow> (string \<times> jsval) list" where
  "flatten sheet (Obj ps) = ps"
| "flatten sheet (Ref a) = sheet a"
| "flatten sheet (Arr vs) =
     fold (\<lambda>v acc. fold (\<lambda>(k, x). assign k x) (flatten sheet v) acc) vs []"
| "flatten sheet v = []"

section \<open>SegmentedButtonGroup\<close>

record props =
  value_prop :: jsval
  onValueChange :: jsval
  multiselect :: jsval
  children :: node
  style :: jsval

text \<open>
  The exported context, given by its default value: the empty object, cast to the type of
  a context value.
\<close>

definition SegmentedButtonGroupContext :: "(string \<times> jsval) list" where
  "SegmentedButtonGroupContext = []"

definition styles_row :: jsval where
  "styles_row = Obj [(''flexDirection'', Str ''row'')]"

definition count_error :: error where
  "count_error = Error ''Segmented buttons are best used for selecting between 2 and 5 choices. If you have more than five choices, consider using another component, such as chips.''"

text \<open>The test \<open>child && child.type === SegmentedButton\<close>.\<close>

fun is_SegmentedButton :: "node \<Rightarrow> bool" where
  "is_SegmentedButton (NElement e) = (el_type e = SegmentedButton)"
| "is_SegmentedButton n = False"

definition segment_of :: "nat \<Rightarrow> nat \<Rightarrow> string" where
  "segment_of count i = (if i = 0 then ''first'' else if i = count - 1 then ''last'' else ''default'')"

text \<open>
  The callback given to \<open>React.Children.map\<close>. What the component \<open>SegmentedButton\<close>
  declares as \<open>defaultProps\<close> lies in its own module, \<^verbatim>\<open>./SegmentedButton\<close>, and is the
  parameter \<open>defaultProps\<close> here (\<open>None\<close> when it declares none).
\<close>

fun annotate ::
  "(string \<times> jsval) list option \<Rightarrow> nat \<Rightarrow> jsval \<Rightarrow> node \<Rightarrow> nat \<Rightarrow> node" where
  "annotate defaultProps count ms (NElement e) i =
     (if el_type e = SegmentedButton
      then NElement (cloneElement defaultProps e
             [(''segment'', Str (segment_of count i)),
              (''multiselect'', ms),
              (''style'', Arr [lookup (el_props e) ''style''])])
      else NElement e)"
| "annotate defaultProps count ms child i = child"

text \<open>
  What the component returns: the provider with its context value, around one \<open>View\<close>
  with its style and children.
\<close>

record rendered =
  provider_value :: "(string \<times> jsval) list"
  view_style :: jsval
  view_children :: node

definition SegmentedButtonGroup ::
  "(string \<times> jsval) list option \<Rightarrow> 'a props_scheme \<Rightarrow> error + rendered" where
  "SegmentedButtonGroup defaultProps p =
     (case Children_count (children p) of
        Inl e \<Rightarrow> Inl e
      | Inr count \<Rightarrow>
          if count < 2 \<or> count > 5 then Inl count_error
          else case Children_map (children p) (annotate defaultProps count (multiselect p)) of
                 Inl e \<Rightarrow> Inl e
               | Inr mapped \<Rightarrow>
                   Inr \<lparr>provider_value =
                          [(''value'', value_prop p), (''onValueChange'', onValueChange p)],
                        view_style = Arr [styles_row, style p],
                        view_children = mapped\<rparr>)"


section \<open>Reading the result\<close>

text \<open>The entries of a rendered child array.\<close>

fun items :: "node \<Rightarrow> node list" where
  "items (NArray ns) = ns"
| "items n = []"

text \<open>
  Where the child visited \<open>i\<close>-th lands in the array \<open>React.Children.map\<close> returns: after
  the non-null children visited before it.
\<close>

definition position :: "node \<Rightarrow> nat \<Rightarrow> nat" where
  "position c i = length (filter (\<lambda>n. n \<noteq> NNull) (take i (slots c)))"

text \<open>\<open>child.props[k]\<close> of a rendered child.\<close>

fun prop_of :: "node \<Rightarrow> string \<Rightarrow> jsval" where
  "prop_of (NElement e) k = lookup (el_props e) k"
| "prop_of n k = Undefined"

text \<open>A node under a key: an element with its key replaced, any other node as it is.\<close>

fun keyed :: "string \<Rightarrow> node \<Rightarrow> node" where
  "keyed name (NElement e) = NElement (cloneAndReplaceKey e name)"
| "keyed name n = n"

text \<open>The default a component declares for a property, \<open>undefined\<close> when it declares none.\<close>

definition declared_default :: "(string \<times> jsval) list option \<Rightarrow> string \<Rightarrow> jsval" where
  "declared_default defaultProps k =
     (case defaultProps of None \<Rightarrow> Undefined | Some d \<Rightarrow> lookup d k)"

text \<open>The \<open>segment\<close> each rendered segmented button carries, in order.\<close>

definition segments :: "'a props_scheme \<Rightarrow> error + jsval list" where
  "segments p =
     (case SegmentedButtonGroup None p of
        Inl e \<Rightarrow> Inl e
      | Inr out \<Rightarrow> Inr (map (\<lambda>n. prop_of n ''segment'')
                           (filter is_SegmentedButton (items (view_children out)))))"

text \<open>The nodes \<open>React.Children\<close> hands to a callback: neither an array nor a boolean.\<close>

definition leaf :: "node \<Rightarrow> bool" where
  "leaf n = (case n of NArray ns \<Rightarrow> False | NBool b \<Rightarrow> False | _ \<Rightarrow> True)"

text \<open>
  The array rendered for children without a plain object: one entry for each visited child
  that is not \<open>null\<close>, the callback's result under the child's name.
\<close>

definition entries ::
  "(string \<times> jsval) list option \<Rightarrow> nat \<Rightarrow> jsval \<Rightarrow> (nat \<times> string \<times> node) list \<Rightarrow> node list" where
  "entries defaultProps count ms ws =
     map (\<lambda>(i, name, child). keyed name (annotate defaultProps count ms child i))
         (filter (\<lambda>(i, name, child). child \<noteq> NNull) ws)"

section \<open>Example groups\<close>

definition left_button :: element where
  "left_button = \<lparr>el_type = SegmentedButton, el_key = None,
     el_props = [(''icon'', Str ''format-align-left''), (''value'', Str ''left''),
                 (''style'', Ref 1)]\<rparr>"

definition right_button :: element where
  "right_button = \<lparr>el_type = SegmentedButton, el_key = None,
     el_props = [(''icon'', Str ''format-align-right''), (''value'', Str ''right'')]\<rparr>"

definition label :: element where
  "label = \<lparr>el_type = Other ''Text'', el_key = None,
     el_props = [(''children'', Str ''Align'')]\<rparr>"

text \<open>
  The group of the usage example in the component's documentation, its first button with
  a style of its own.
\<close>

definition usage :: props where
  "usage = \<lparr>value_prop = Str ''left'', onValueChange = Ref 0, multiselect = Undefined,
     children = NArray [NElement left_button, NElement right_button], style = Undefined\<rparr>"

definition usage_out :: rendered where
  "usage_out = \<lparr>provider_value = [(''value'', Str ''left''), (''onValueChange'', Ref 0)],
     view_style = Arr [Obj [(''flexDirection'', Str ''row'')], Undefined],
     view_children = NArray
       [NElement \<lparr>el_type = SegmentedButton, el_key = Some ''.0'',
          el_props = [(''icon'', Str ''format-align-left''), (''value'', Str ''left''),
                      (''style'', Arr [Ref 1]), (''segment'', Str ''first''),
                      (''multiselect'', Undefined)]\<rparr>,
        NElement \<lparr>el_type = SegmentedButton, el_key = Some ''.1'',
          el_props = [(''icon'', Str ''format-align-right''), (''value'', Str ''right''),
                      (''segment'', Str ''last''), (''multiselect'', Undefined),
                      (''style'', Arr [Undefined])]\<rparr>]\<rparr>"

text \<open>A multiselect group with a text label before its two buttons and a style of its own.\<close>

definition labelled :: props where
  "labelled = \<lparr>value_prop = Ref 2, onValueChange = Ref 0, multiselect = Bool True,
     children = NArray [NElement label, NElement left_button, NElement right_button],
     style = Obj [(''flexDirection'', Str ''column'')]\<rparr>"

definition labelled_out :: rendered where
  "labelled_out = \<lparr>provider_value = [(''value'', Ref 2), (''onValueChange'', Ref 0)],
     view_style = Arr [Obj [(''flexDirection'', Str ''row'')],
                       Obj [(''flexDirection'', Str ''column'')]],
     view_children = NArray
       [NElement \<lparr>el_type = Other ''Text'', el_key = Some ''.0'',
          el_props = [(''children'', Str ''Align'')]\<rparr>,
        NElement \<lparr>el_type = SegmentedButton, el_key = Some ''.1'',
          el_props = [(''icon'', Str ''format-align-left''), (''value'', Str ''left''),
                      (''style'', Arr [Ref 1]), (''segment'', Str ''default''),
                      (''multiselect'', Bool True)]\<rparr>,
        NElement \<lparr>el_type = SegmentedButton, el_key = Some ''.2'',
          el_props = [(''icon'', Str ''format-align-right''), (''value'', Str ''right''),
                      (''segment'', Str ''last''), (''multiselect'', Bool True),
                      (''style'', Arr [Undefined])]\<rparr>]\<rparr>"

text \<open>A group with the label after its two buttons.\<close>

definition trailing :: props where
  "trailing = \<lparr>value_prop = Str ''left'', onValueChange = Ref 0, multiselect = Undefined,
     children = NArray [NElement left_button, NElement right_button, NElement label],
     style = Undefined\<rparr>"

text \<open>A group of two children, neither a segmented button.\<close>

definition captions :: props where
  "captions = \<lparr>value_prop = Null, onValueChange = Ref 0, multiselect = Undefined,
     children = NArray [NElement label, NText ''or''], style = Undefined\<rparr>"

text \<open>Groups of one and of six buttons.\<close>

definition single :: props where
  "single = \<lparr>value_prop = Str ''left'', onValueChange = Ref 0, multiselect = Undefined,
     children = NElement left_button, style = Undefined\<rparr>"

definition six :: props where
  "six = \<lparr>value_prop = Str ''left'', onValueChange = Ref 0, multiselect = Undefined,
     children = NArray (replicate 6 (NElement right_button)), style = Undefined\<rparr>"

text \<open>A group of two buttons with a plain object between them.\<close>

definition with_object :: props where
  "with_object = \<lparr>value_prop = Str ''left'', onValueChange = Ref 0, multiselect = Undefined,
     children = NArray [NElement left_button, NObject, NElement right_button],
     style = Undefined\<rparr>"

text \<open>A group whose first child is a condition that came out false.\<close>

definition conditional :: props where
  "conditional = \<lparr>value_prop = Str ''left'', onValueChange = Ref 0, multiselect = Undefined,
     children = NArray [NBool False, NElement label, NElement right_button],
     style = Undefined\<rparr>"

definition conditional_out :: rendered where
  "conditional_out = \<lparr>provider_value = [(''value'', Str ''left''), (''onValueChange'', Ref 0)],
     view_style = Arr [Obj [(''flexDirection'', Str ''row'')], Undefined],
     view_children = NArray
       [NElement \<lparr>el_type = Other ''Text'', el_key = Some ''.1'',
          el_props = [(''children'', Str ''Align'')]\<rparr>,
        NElement \<lparr>el_type = SegmentedButton, el_key = Some ''.2'',
          el_props = [(''icon'', Str ''format-align-right''), (''value'', Str ''right''),
                      (''segment'', Str ''last''), (''multiselect'', Undefined),
                      (''style'', Arr [Undefined])]\<rparr>]\<rparr>"


section \<open>Evaluation of the examples\<close>

lemmas example_defs = left_button_def right_button_def label_def usage_def usage_out_def
  labelled_def labelled_out_def

lemmas render_defs = SegmentedButtonGroup_def Children_count_def Children_map_def
  slots_def names_def cloneElement_def cloneAndReplaceKey_def mapped_key_def
  RESERVED_PROPS_def segment_of_def lookup_def position_def styles_row_def count_error_def
  toString36.simps digit36_def

lemma usage_renders: "SegmentedButtonGroup None usage = Inr usage_out"
  by (simp add: render_defs example_defs)

lemma labelled_renders: "SegmentedButtonGroup None labelled = Inr labelled_out"
  by (simp add: render_defs example_defs)

section \<open>Facts about the child utilities\<close>

lemma walk_leaf:
  "(name, n) \<in> set (walk s c) \<Longrightarrow> leaf n"
  "(name, n) \<in> set (walks pre i cs) \<Longrightarrow> leaf n"
  by (induction s c and pre i cs arbitrary: name n and name n rule: walk_walks.induct)
     (auto simp: leaf_def)

lemma slots_leaf: "n \<in> set (slots c) \<Longrightarrow> leaf n"
  by (auto simp: slots_def dest: walk_leaf(1))

lemma annotate_Null_iff: "annotate d count ms n i = NNull \<longleftrightarrow> n = NNull"
  by (cases n) auto

lemma annotate_unmatched: "\<not> is_SegmentedButton n \<Longrightarrow> annotate d count ms n i = n"
  by (cases n) auto

lemma emit_annotate:
  "leaf n \<Longrightarrow> emit name n (annotate d count ms n i) =
     Inr (if n = NNull then [] else [keyed name (annotate d count ms n i)])"
  by (cases n) (auto simp: leaf_def mapped_key_def cloneElement_def split: option.splits)

lemma mapIntoArray_annotate:
  "\<forall>(name, n) \<in> set ws. leaf n \<and> n \<noteq> NObject \<Longrightarrow>
   mapIntoArray (annotate d count ms) k ws = Inr (entries d count ms (enumerate k ws))"
proof (induction ws arbitrary: k)
  case Nil
  then show ?case by (simp add: entries_def)
next
  case (Cons w ws)
  obtain name n where w: "w = (name, n)" by (cases w)
  have n: "leaf n" "n \<noteq> NObject" using Cons.prems w by auto
  have rest: "mapIntoArray (annotate d count ms) (Suc k) ws =
      Inr (entries d count ms (enumerate (Suc k) ws))"
    using Cons.IH Cons.prems by simp
  show ?case
    using n rest w by (simp add: emit_annotate entries_def)
qed

lemma Children_map_annotate:
  assumes "c \<noteq> NNull" and "NObject \<notin> set (slots c)"
  shows "Children_map c (annotate d count ms) =
           Inr (NArray (entries d count ms (enumerate 0 (walk [] c))))"
proof -
  have "\<forall>(name, n) \<in> set (walk [] c). leaf n \<and> n \<noteq> NObject"
    using assms(2) by (force simp: slots_def dest: walk_leaf(1))
  then show ?thesis
    using assms(1) by (simp add: Children_map_def mapIntoArray_annotate)
qed

lemma Children_count_Inr:
  "Children_count c = Inr count \<longleftrightarrow>
     (if c = NNull then count = 0 else NObject \<notin> set (slots c) \<and> count = length (slots c))"
  by (auto simp: Children_count_def)

lemma Children_count_Inl:
  "Children_count c = Inl e \<longleftrightarrow> (c \<noteq> NNull \<and> NObject \<in> set (slots c) \<and> e = ObjectsNotValid)"
  by (auto simp: Children_count_def)

lemma slots_NNull: "slots NNull = [NNull]"
  by (simp add: slots_def)

text \<open>A construction succeeds exactly on 2 to 5 countable children, with this result.\<close>

lemma render_Inr:
  "SegmentedButtonGroup d p = Inr out \<longleftrightarrow>
     (NObject \<notin> set (slots (children p)) \<and> children p \<noteq> NNull \<and>
      2 \<le> length (slots (children p)) \<and> length (slots (children p)) \<le> 5 \<and>
      out = \<lparr>provider_value = [(''value'', value_prop p), (''onValueChange'', onValueChange p)],
             view_style = Arr [styles_row, style p],
             view_children = NArray (entries d (length (slots (children p))) (multiselect p)
                                       (enumerate 0 (walk [] (children p))))\<rparr>)"
proof (cases "children p = NNull")
  case True
  then show ?thesis
    by (simp add: SegmentedButtonGroup_def Children_count_def)
next
  case nn: False
  show ?thesis
  proof (cases "NObject \<in> set (slots (children p))")
    case True
    then show ?thesis
      using nn by (simp add: SegmentedButtonGroup_def Children_count_def)
  next
    case False
    then show ?thesis
      using nn by (auto simp: SegmentedButtonGroup_def Children_count_def Children_map_annotate)
  qed
qed

lemma render_Inl:
  "SegmentedButtonGroup d p = Inl e \<longleftrightarrow>
     (case Children_count (children p) of
        Inl e' \<Rightarrow> e = e'
      | Inr count \<Rightarrow> (count < 2 \<or> 5 < count) \<and> e = count_error)"
proof (cases "Children_count (children p)")
  case (Inl e')
  then show ?thesis by (auto simp: SegmentedButtonGroup_def)
next
  case (Inr count)
  show ?thesis
  proof (cases "count < 2 \<or> 5 < count")
    case True
    then show ?thesis using Inr by (auto simp: SegmentedButtonGroup_def)
  next
    case False
    then have "children p \<noteq> NNull" "NObject \<notin> set (slots (children p))"
      using Inr by (auto simp: Children_count_Inr split: if_splits)
    then show ?thesis
      using Inr False by (simp add: SegmentedButtonGroup_def Children_map_annotate)
  qed
qed

lemma filter_nth:
  assumes "i < length ys" and "P (ys ! i)"
  shows "filter P ys ! length (filter P (take i ys)) = ys ! i"
    and "length (filter P (take i ys)) < length (filter P ys)"
proof -
  have "ys = take i ys @ ys ! i # drop (Suc i) ys"
    using assms(1) by (simp add: id_take_nth_drop)
  then have "filter P ys = filter P (take i ys) @ ys ! i # filter P (drop (Suc i) ys)"
    using assms(2) by (metis filter.simps(2) filter_append)
  then show "filter P ys ! length (filter P (take i ys)) = ys ! i"
    and "length (filter P (take i ys)) < length (filter P ys)"
    by (simp_all add: nth_append)
qed

lemma enumerated_prefix:
  "length (filter (\<lambda>(j, name, child). child \<noteq> NNull) (take i (enumerate k ws))) =
   length (filter (\<lambda>n. n \<noteq> NNull) (take i (map snd ws)))"
proof (induction ws arbitrary: i k)
  case Nil
  then show ?case by simp
next
  case (Cons w ws)
  then show ?case by (cases i; cases w) simp_all
qed

lemma entries_length:
  "length (entries d count ms (enumerate k ws)) =
   length (filter (\<lambda>n. n \<noteq> NNull) (map snd ws))"
  by (induction ws arbitrary: k) (auto simp: entries_def)

text \<open>
  The child visited \<open>i\<close>-th, when it is not \<open>null\<close>, is rendered as what the callback
  returns for it, under its name, at its position in the returned array.
\<close>

lemma rendered_child:
  assumes "SegmentedButtonGroup d p = Inr out"
    and "Children_count (children p) = Inr count"
    and "i < count"
    and "slots (children p) ! i \<noteq> NNull"
  shows "items (view_children out) ! position (children p) i =
           keyed (names (children p) ! i)
             (annotate d count (multiselect p) (slots (children p) ! i) i)"
    and "position (children p) i < length (items (view_children out))"
proof -
  let ?c = "children p"
  let ?ws = "enumerate 0 (walk [] ?c)"
  let ?keep = "\<lambda>(j, name, child). child \<noteq> NNull"
  let ?f = "\<lambda>(j, name, child). keyed name (annotate d count (multiselect p) child j)"
  have nn: "?c \<noteq> NNull" and cnt: "count = length (slots ?c)"
    using assms(1) assms(2) by (auto simp: render_Inr Children_count_Inr)
  have its: "items (view_children out) = map ?f (filter ?keep ?ws)"
    using assms(1) cnt by (simp add: render_Inr entries_def)
  have i: "i < length ?ws"
    using assms(3) cnt by (simp add: slots_def)
  have nth: "?ws ! i = (i, names ?c ! i, slots ?c ! i)"
    using i by (simp add: nth_enumerate_eq slots_def names_def)
  have keep: "?keep (?ws ! i)"
    using assms(4) nth by simp
  have pos: "position ?c i = length (filter ?keep (take i ?ws))"
    by (simp add: position_def slots_def enumerated_prefix)
  have a: "filter ?keep ?ws ! position ?c i = ?ws ! i"
    and b: "position ?c i < length (filter ?keep ?ws)"
    using filter_nth [of i ?ws ?keep, OF i keep] pos by simp_all
  show "items (view_children out) ! position ?c i =
          keyed (names ?c ! i) (annotate d count (multiselect p) (slots ?c ! i) i)"
    using a b its nth by simp
  show "position ?c i < length (items (view_children out))"
    using b its by simp
qed

lemma rendered_length:
  assumes "SegmentedButtonGroup d p = Inr out"
  shows "length (items (view_children out)) =
           length (filter (\<lambda>n. n \<noteq> NNull) (slots (children p)))"
  using assms by (simp add: render_Inr entries_length slots_def)

section \<open>Facts about properties and styles\<close>

lemma map_of_assign: "map_of (assign k v ps) = (map_of ps)(k \<mapsto> v)"
  by (induction ps) (auto simp: fun_eq_iff)

lemma lookup_assign: "lookup (assign k v ps) k' = (if k' = k then v else lookup ps k')"
  by (simp add: lookup_def map_of_assign)

lemma map_of_fold_assign:
  "map_of (fold (\<lambda>(k, x). assign k x) qs acc) = map_of acc ++ map_of (rev qs)"
proof (induction qs arbitrary: acc)
  case Nil
  then show ?case by simp
next
  case (Cons q qs)
  obtain k x where q: "q = (k, x)" by (cases q)
  have "map_of (fold (\<lambda>(k, x). assign k x) (q # qs) acc) =
          map_of (assign k x acc) ++ map_of (rev qs)"
    using Cons.IH [of "assign k x acc"] q by simp
  also have "\<dots> = map_of acc ++ map_of (rev (q # qs))"
    by (rule ext) (simp add: map_add_def map_of_assign q split: option.splits)
  finally show ?case .
qed

lemma flatten_pair:
  "map_of (flatten sheet (Arr [a, b])) =
     map_of (flatten sheet (Arr [a])) ++ map_of (flatten sheet (Arr [b]))"
  by (simp add: map_of_fold_assign)

lemma keyed_reads:
  "is_SegmentedButton (keyed name n) = is_SegmentedButton n"
  "prop_of (keyed name n) k = prop_of n k"
  by (cases n; simp add: cloneAndReplaceKey_def)+

text \<open>
  What the callback writes on a segmented button. The segment and the style are never
  \<open>undefined\<close>, so no declared default stands in for them; the multiselect flag gives way
  to a declared default when it is \<open>undefined\<close>.
\<close>

lemma annotate_matched:
  assumes "el_type e = SegmentedButton"
  shows "is_SegmentedButton (annotate d count ms (NElement e) i)"
    and "prop_of (annotate d count ms (NElement e) i) ''segment'' = Str (segment_of count i)"
    and "prop_of (annotate d count ms (NElement e) i) ''style'' =
           Arr [lookup (el_props e) ''style'']"
    and "prop_of (annotate d count ms (NElement e) i) ''multiselect'' =
           (if ms = Undefined then declared_default d ''multiselect'' else ms)"
  using assms
  by (auto simp: cloneElement_def RESERVED_PROPS_def lookup_assign declared_default_def
           split: option.splits)


section \<open>The child count\<close>

text \<open>
  C1, as stated, fails. The group of two buttons with a plain object between them has
  three direct children, a number within 2 to 5, and its construction fails all the same:
  \<open>React.Children.count\<close> throws React's own error on the object, before the count is
  tested. So the contents of the children can make construction fail.
\<close>

theorem object_child_fails:
  "children with_object = NArray [NElement left_button, NObject, NElement right_button] \<and>
   length (slots (children with_object)) = 3 \<and>
   SegmentedButtonGroup None with_object = Inl ObjectsNotValid \<and>
   ObjectsNotValid \<noteq> count_error"
  by (simp add: render_defs example_defs with_object_def)

text \<open>
  C1, amended. When no child is a plain object, the count returns, and construction fails
  exactly when the number of direct children is below 2 or above 5, always with the one
  error of the count check; it succeeds exactly when the number is between 2 and 5. The
  props are arbitrary, so no value, callback, flag or style, and no child that React
  accepts, decides anything else; a failed construction returns the error alone, with no
  context value and no annotated child. When a child is a plain object, construction
  fails with React's error.
\<close>

theorem child_count_decides_failure:
  "(NObject \<notin> set (slots (children p)) \<longrightarrow>
      (\<exists>c. Children_count (children p) = Inr c \<and>
           ((\<exists>e. SegmentedButtonGroup d p = Inl e) \<longleftrightarrow> (c < 2 \<or> 5 < c)) \<and>
           (SegmentedButtonGroup d p = Inl count_error \<longleftrightarrow> (c < 2 \<or> 5 < c)) \<and>
           ((\<exists>out. SegmentedButtonGroup d p = Inr out) \<longleftrightarrow> (2 \<le> c \<and> c \<le> 5)))) \<and>
   (NObject \<in> set (slots (children p)) \<longrightarrow>
      SegmentedButtonGroup d p = Inl ObjectsNotValid)"
proof (intro conjI impI)
  assume no: "NObject \<notin> set (slots (children p))"
  define c where "c = (if children p = NNull then 0 else length (slots (children p)))"
  have cnt: "Children_count (children p) = Inr c"
    using no by (simp add: Children_count_def c_def)
  have inl: "SegmentedButtonGroup d p = Inl e \<longleftrightarrow> ((c < 2 \<or> 5 < c) \<and> e = count_error)" for e
    using cnt by (simp add: render_Inl)
  have inr: "(\<exists>out. SegmentedButtonGroup d p = Inr out) \<longleftrightarrow> (2 \<le> c \<and> c \<le> 5)"
    using no by (auto simp: render_Inr c_def)
  show "\<exists>c. Children_count (children p) = Inr c \<and>
           ((\<exists>e. SegmentedButtonGroup d p = Inl e) \<longleftrightarrow> (c < 2 \<or> 5 < c)) \<and>
           (SegmentedButtonGroup d p = Inl count_error \<longleftrightarrow> (c < 2 \<or> 5 < c)) \<and>
           ((\<exists>out. SegmentedButtonGroup d p = Inr out) \<longleftrightarrow> (2 \<le> c \<and> c \<le> 5))"
    using cnt inl inr by blast
next
  assume obj: "NObject \<in> set (slots (children p))"
  then have "children p \<noteq> NNull"
    by (auto simp: slots_NNull)
  then have "Children_count (children p) = Inl ObjectsNotValid"
    using obj by (simp add: Children_count_def)
  then show "SegmentedButtonGroup d p = Inl ObjectsNotValid"
    by (simp add: render_Inl)
qed

theorem child_count_decides_failure_witness:
  "NObject \<notin> set (slots (children single)) \<and>
   Children_count (children single) = Inr 1 \<and>
   SegmentedButtonGroup None single = Inl count_error \<and>
   NObject \<notin> set (slots (children six)) \<and>
   Children_count (children six) = Inr 6 \<and>
   SegmentedButtonGroup None six = Inl count_error \<and>
   NObject \<notin> set (slots (children usage)) \<and>
   Children_count (children usage) = Inr 2 \<and>
   SegmentedButtonGroup None usage = Inr usage_out \<and>
   NObject \<in> set (slots (children with_object)) \<and>
   SegmentedButtonGroup None with_object = Inl ObjectsNotValid"
proof -
  have one: "NObject \<notin> set (slots (children single))"
    "Children_count (children single) = Inr 1"
    by (simp_all add: Children_count_def slots_def single_def)
  have six: "NObject \<notin> set (slots (children six))"
    "Children_count (children six) = Inr 6"
    by (simp_all add: Children_count_def slots_def six_def eval_nat_numeral)
  have two: "NObject \<notin> set (slots (children usage))"
    "Children_count (children usage) = Inr 2"
    by (simp_all add: Children_count_def slots_def usage_def)
  have obj: "NObject \<in> set (slots (children with_object))"
    by (simp add: slots_def with_object_def)
  have a: "SegmentedButtonGroup None single = Inl count_error"
    using child_count_decides_failure [of single None] one by auto
  have b: "SegmentedButtonGroup None six = Inl count_error"
    using child_count_decides_failure [of six None] six by auto
  have c: "SegmentedButtonGroup None with_object = Inl ObjectsNotValid"
    using child_count_decides_failure [of with_object None] obj
    by blast
  show ?thesis
    using one six two obj a b c usage_renders by blast
qed

section \<open>Segments\<close>

text \<open>
  C2, as stated, fails. In the labelled group the first segmented button is the second
  child: it is rendered with segment "default", and no button of the group has "first".
  In the group with the label last, the last segmented button is the second of three
  children: it is rendered with "default", and no button has "last".
\<close>

theorem first_matching_not_first:
  "Children_count (children labelled) = Inr 3 \<and>
   filter is_SegmentedButton (slots (children labelled)) =
     [NElement left_button, NElement right_button] \<and>
   segments labelled = Inr [Str ''default'', Str ''last''] \<and>
   Children_count (children trailing) = Inr 3 \<and>
   filter is_SegmentedButton (slots (children trailing)) =
     [NElement left_button, NElement right_button] \<and>
   segments trailing = Inr [Str ''first'', Str ''default'']"
  by (simp add: render_defs example_defs trailing_def segments_def)

text \<open>
  C2, amended. The segment follows the position among all direct children, whatever their
  type: a segmented button that is the first child is rendered with "first", one that is
  the last child with "last", and one anywhere between with "default".
\<close>

theorem segment_by_sibling_index:
  assumes "SegmentedButtonGroup d p = Inr out"
    and "Children_count (children p) = Inr count"
    and "i < count"
    and "slots (children p) ! i = NElement e"
    and "el_type e = SegmentedButton"
  shows "is_SegmentedButton (items (view_children out) ! position (children p) i) \<and>
         prop_of (items (view_children out) ! position (children p) i) ''segment'' =
           Str (if i = 0 then ''first''
                else if i = count - 1 then ''last''
                else ''default'')"
proof -
  have "slots (children p) ! i \<noteq> NNull"
    using assms(4) by simp
  then have "items (view_children out) ! position (children p) i =
      keyed (names (children p) ! i) (annotate d count (multiselect p) (NElement e) i)"
    using rendered_child(1) [OF assms(1) assms(2) assms(3)] assms(4) by simp
  then show ?thesis
    using annotate_matched(1,2) [OF assms(5), of d count "multiselect p" i]
    by (simp add: keyed_reads segment_of_def)
qed

theorem segment_by_sibling_index_witness:
  "SegmentedButtonGroup None labelled = Inr labelled_out \<and>
   Children_count (children labelled) = Inr 3 \<and>
   slots (children labelled) ! 2 = NElement right_button \<and>
   el_type right_button = SegmentedButton \<and>
   position (children labelled) 2 = 2 \<and>
   is_SegmentedButton (items (view_children labelled_out) ! 2) \<and>
   prop_of (items (view_children labelled_out) ! 2) ''segment'' = Str ''last''"
proof -
  have a: "Children_count (children labelled) = Inr 3"
    and b: "slots (children labelled) ! 2 = NElement right_button"
    and c: "el_type right_button = SegmentedButton"
    and d: "position (children labelled) 2 = 2"
    by (simp_all add: Children_count_def slots_def position_def example_defs)
  have lt: "(2::nat) < 3" by simp
  show ?thesis
    using segment_by_sibling_index [OF labelled_renders a lt b c] a b c d labelled_renders
    by simp
qed


section \<open>What a segmented button receives\<close>



text \<open>
  C7. The \<open>style\<close> property a rendered segmented button receives is the one-entry list
  holding the style the child came with (\<open>undefined\<close> when it had none). The group's own
  style is no part of it: rendering the same group with any other group style gives the
  same children.
\<close>

theorem child_style_is_own_style:
  assumes "SegmentedButtonGroup d p = Inr out"
    and "Children_count (children p) = Inr count"
    and "i < count"
    and "slots (children p) ! i = NElement e"
    and "el_type e = SegmentedButton"
  shows "prop_of (items (view_children out) ! position (children p) i) ''style'' =
           Arr [lookup (el_props e) ''style''] \<and>
         (\<forall>s. \<exists>out'. SegmentedButtonGroup d (p\<lparr>style := s\<rparr>) = Inr out' \<and>
                     view_children out' = view_children out)"
proof -
  have "slots (children p) ! i \<noteq> NNull"
    using assms(4) by simp
  then have "items (view_children out) ! position (children p) i =
      keyed (names (children p) ! i) (annotate d count (multiselect p) (NElement e) i)"
    using rendered_child(1) [OF assms(1) assms(2) assms(3)] assms(4) by simp
  then have own: "prop_of (items (view_children out) ! position (children p) i) ''style'' =
      Arr [lookup (el_props e) ''style'']"
    using annotate_matched(3) [OF assms(5), of d count "multiselect p" i]
    by (simp add: keyed_reads)
  have "\<exists>out'. SegmentedButtonGroup d (p\<lparr>style := s\<rparr>) = Inr out' \<and>
                view_children out' = view_children out" for s
    using assms(1) by (auto simp: render_Inr)
  with own show ?thesis by blast
qed

theorem child_style_is_own_style_witness:
  "SegmentedButtonGroup None labelled = Inr labelled_out \<and>
   Children_count (children labelled) = Inr 3 \<and>
   slots (children labelled) ! 1 = NElement left_button \<and>
   el_type left_button = SegmentedButton \<and>
   position (children labelled) 1 = 1 \<and>
   lookup (el_props left_button) ''style'' = Ref 1 \<and>
   style labelled = Obj [(''flexDirection'', Str ''column'')] \<and>
   prop_of (items (view_children labelled_out) ! 1) ''style'' = Arr [Ref 1]"
proof -
  have a: "Children_count (children labelled) = Inr 3"
    and b: "slots (children labelled) ! 1 = NElement left_button"
    and c: "el_type left_button = SegmentedButton"
    and d: "position (children labelled) 1 = 1"
    and e: "lookup (el_props left_button) ''style'' = Ref 1"
    and f: "style labelled = Obj [(''flexDirection'', Str ''column'')]"
    by (simp_all add: Children_count_def slots_def position_def lookup_def example_defs)
  have lt: "(1::nat) < 3" by simp
  show ?thesis
    using child_style_is_own_style [OF labelled_renders a lt b c] a b c d e f labelled_renders
    by simp
qed

section \<open>Children of another type\<close>

text \<open>
  C4, as stated, fails. The label of the labelled group is not a segmented button and
  came without a key; what is rendered for it is a copy under the key \<open>.0\<close>, which
  \<open>React.Children.map\<close> gives every element it returns: the child is not in the output
  as it was. In the group whose first child is \<open>false\<close>, that child is counted among the
  three and has no entry in the output at all, which has two.
\<close>

theorem other_child_rekeyed:
  "slots (children labelled) ! 0 = NElement label \<and>
   \<not> is_SegmentedButton (NElement label) \<and>
   el_key label = None \<and>
   SegmentedButtonGroup None labelled = Inr labelled_out \<and>
   items (view_children labelled_out) ! 0 = NElement (label\<lparr>el_key := Some ''.0''\<rparr>) \<and>
   items (view_children labelled_out) ! 0 \<noteq> NElement label \<and>
   children conditional = NArray [NBool False, NElement label, NElement right_button] \<and>
   Children_count (children conditional) = Inr 3 \<and>
   SegmentedButtonGroup None conditional = Inr conditional_out \<and>
   length (items (view_children conditional_out)) = 2"
  by (simp add: render_defs example_defs conditional_def conditional_out_def)

text \<open>
  C4, amended. For a child that is not a segmented button the callback returns the child
  itself, with no segment, multiselect or style added. A text child is rendered as it is;
  an element is rendered as a copy with the same type and the same props under the key
  \<open>React.Children.map\<close> gives it, the name of its place among the children. A \<open>null\<close>,
  \<open>undefined\<close> or boolean child is seen by the callback as \<open>null\<close>, returned as
  \<open>null\<close>, and has no entry in the output: the output has one entry for each child that
  is none of these.
\<close>

theorem other_children_passed_through:
  assumes "SegmentedButtonGroup d p = Inr out"
    and "Children_count (children p) = Inr count"
    and "i < count"
    and "\<not> is_SegmentedButton (slots (children p) ! i)"
  shows "annotate d count (multiselect p) (slots (children p) ! i) i = slots (children p) ! i \<and>
         length (items (view_children out)) =
           length (filter (\<lambda>n. n \<noteq> NNull) (slots (children p))) \<and>
         (slots (children p) ! i \<noteq> NNull \<longrightarrow>
            position (children p) i < length (items (view_children out)) \<and>
            items (view_children out) ! position (children p) i =
              keyed (names (children p) ! i) (slots (children p) ! i))"
  using assms rendered_child [OF assms(1) assms(2) assms(3)] rendered_length [OF assms(1)]
  by (simp add: annotate_unmatched)

theorem other_children_passed_through_witness:
  "SegmentedButtonGroup None labelled = Inr labelled_out \<and>
   Children_count (children labelled) = Inr 3 \<and>
   slots (children labelled) ! 0 = NElement label \<and>
   \<not> is_SegmentedButton (NElement label) \<and>
   NElement label \<noteq> NNull \<and>
   position (children labelled) 0 = 0 \<and>
   names (children labelled) ! 0 = ''.0'' \<and>
   length (items (view_children labelled_out)) = 3 \<and>
   items (view_children labelled_out) ! 0 =
     NElement \<lparr>el_type = Other ''Text'', el_key = Some ''.0'',
               el_props = [(''children'', Str ''Align'')]\<rparr>"
proof -
  have a: "Children_count (children labelled) = Inr 3"
    and b: "slots (children labelled) ! 0 = NElement label"
    and c: "\<not> is_SegmentedButton (slots (children labelled) ! 0)"
    and d: "position (children labelled) 0 = 0"
    and e: "names (children labelled) ! 0 = ''.0''"
    and f: "filter (\<lambda>n. n \<noteq> NNull) (slots (children labelled)) = slots (children labelled)"
    and g: "length (slots (children labelled)) = 3"
    by (simp_all add: Children_count_def slots_def names_def position_def example_defs
          toString36.simps digit36_def)
  have lt: "(0::nat) < 3" by simp
  have h: "keyed ''.0'' (NElement label) =
      NElement \<lparr>el_type = Other ''Text'', el_key = Some ''.0'',
                el_props = [(''children'', Str ''Align'')]\<rparr>"
    by (simp add: cloneAndReplaceKey_def label_def)
  show ?thesis
    using other_children_passed_through [OF labelled_renders a lt c] a b c d e f g h
      labelled_renders
    by simp
qed

section \<open>The context and the container\<close>

text \<open>
  C5. The context value the group provides is the object with exactly the two properties
  \<open>value\<close> and \<open>onValueChange\<close>, each the very value the props hold: a reference stays
  the same reference. A descendant below the provider reads those two values.
\<close>

theorem context_carries_props:
  assumes "SegmentedButtonGroup d p = Inr out"
  shows "provider_value out = [(''value'', value_prop p), (''onValueChange'', onValueChange p)] \<and>
         lookup (useContext SegmentedButtonGroupContext (Some (provider_value out))) ''value'' =
           value_prop p \<and>
         lookup (useContext SegmentedButtonGroupContext (Some (provider_value out)))
             ''onValueChange'' = onValueChange p"
  using assms by (auto simp: render_Inr useContext_def lookup_def)

theorem context_carries_props_witness:
  "SegmentedButtonGroup None labelled = Inr labelled_out \<and>
   value_prop labelled = Ref 2 \<and> onValueChange labelled = Ref 0 \<and>
   provider_value labelled_out = [(''value'', Ref 2), (''onValueChange'', Ref 0)] \<and>
   lookup (useContext SegmentedButtonGroupContext (Some (provider_value labelled_out)))
       ''value'' = Ref 2 \<and>
   lookup (useContext SegmentedButtonGroupContext (Some (provider_value labelled_out)))
       ''onValueChange'' = Ref 0"
proof -
  have a: "value_prop labelled = Ref 2" and b: "onValueChange labelled = Ref 0"
    by (simp_all add: labelled_def)
  note t = context_carries_props [OF labelled_renders]
  have "provider_value labelled_out = [(''value'', Ref 2), (''onValueChange'', Ref 0)]"
    and "lookup (useContext SegmentedButtonGroupContext (Some (provider_value labelled_out)))
           ''value'' = Ref 2"
    and "lookup (useContext SegmentedButtonGroupContext (Some (provider_value labelled_out)))
           ''onValueChange'' = Ref 0"
    using t unfolding a b by blast+
  then show ?thesis
    using a b labelled_renders by blast
qed

text \<open>
  C6. The container's style is the two-entry list of the row default followed by the
  group's style. Resolved by the host, it is the row default written over by the resolved
  group style: the group style wins wherever it sets a property, and the default stands
  elsewhere (everywhere, when the group has no style).
\<close>

theorem container_style:
  assumes "SegmentedButtonGroup d p = Inr out"
  shows "view_style out = Arr [styles_row, style p] \<and>
         styles_row = Obj [(''flexDirection'', Str ''row'')] \<and>
         map_of (flatten sheet (view_style out)) =
           map_of (flatten sheet styles_row) ++ map_of (flatten sheet (Arr [style p]))"
proof -
  have vs: "view_style out = Arr [styles_row, style p]"
    using assms by (simp add: render_Inr)
  have "map_of (flatten sheet (Arr [styles_row, style p])) =
          map_of (flatten sheet (Arr [styles_row])) ++ map_of (flatten sheet (Arr [style p]))"
    by (rule flatten_pair)
  moreover have "flatten sheet (Arr [styles_row]) = flatten sheet styles_row"
    by (simp add: styles_row_def)
  ultimately show ?thesis
    using vs by (simp add: styles_row_def)
qed

theorem container_style_witness:
  "SegmentedButtonGroup None labelled = Inr labelled_out \<and>
   style labelled = Obj [(''flexDirection'', Str ''column'')] \<and>
   view_style labelled_out =
     Arr [Obj [(''flexDirection'', Str ''row'')], Obj [(''flexDirection'', Str ''column'')]] \<and>
   map_of (flatten (\<lambda>a. []) (view_style labelled_out)) ''flexDirection'' =
     Some (Str ''column'') \<and>
   SegmentedButtonGroup None usage = Inr usage_out \<and>
   style usage = Undefined \<and>
   map_of (flatten (\<lambda>a. []) (view_style usage_out)) ''flexDirection'' = Some (Str ''row'')"
proof -
  have a: "style labelled = Obj [(''flexDirection'', Str ''column'')]"
    and b: "style usage = Undefined"
    by (simp_all add: labelled_def usage_def)
  note l = container_style [OF labelled_renders, of "\<lambda>a. []"]
  note u = container_style [OF usage_renders, of "\<lambda>a. []"]
  have l1: "view_style labelled_out =
      Arr [Obj [(''flexDirection'', Str ''row'')], Obj [(''flexDirection'', Str ''column'')]]"
    using l a by simp
  have "map_of (flatten (\<lambda>a. []) (view_style labelled_out)) =
      map_of (flatten (\<lambda>a. []) styles_row) ++ map_of (flatten (\<lambda>a. []) (Arr [style labelled]))"
    using l by blast
  then have l2: "map_of (flatten (\<lambda>a. []) (view_style labelled_out)) ''flexDirection'' =
      Some (Str ''column'')"
    by (simp add: a styles_row_def)
  have "map_of (flatten (\<lambda>a. []) (view_style usage_out)) =
      map_of (flatten (\<lambda>a. []) styles_row) ++ map_of (flatten (\<lambda>a. []) (Arr [style usage]))"
    using u by blast
  then have u2: "map_of (flatten (\<lambda>a. []) (view_style usage_out)) ''flexDirection'' =
      Some (Str ''row'')"
    by (simp add: b styles_row_def)
  show ?thesis
    using a b l1 l2 u2 labelled_renders usage_renders by blast
qed

section \<open>Groups without segmented buttons\<close>

text \<open>
  C9. The count check counts every direct child, of any type. A group of 2 to 5 children
  none of which is a segmented button is constructed: its context and container are as
  for any group, and its rendered children are its own children that are not \<open>null\<close>,
  in order, each under the key of its place and none annotated.
\<close>

theorem no_buttons_still_renders:
  assumes "Children_count (children p) = Inr count"
    and "2 \<le> count"
    and "count \<le> 5"
    and "\<forall>n \<in> set (slots (children p)). \<not> is_SegmentedButton n"
  shows "SegmentedButtonGroup d p =
           Inr \<lparr>provider_value =
                  [(''value'', value_prop p), (''onValueChange'', onValueChange p)],
                view_style = Arr [styles_row, style p],
                view_children =
                  NArray (map (\<lambda>(name, child). keyed name child)
                            (filter (\<lambda>(name, child). child \<noteq> NNull)
                               (walk [] (children p))))\<rparr>"
proof -
  let ?c = "children p"
  have nn: "?c \<noteq> NNull" and no: "NObject \<notin> set (slots ?c)"
    and cnt: "count = length (slots ?c)"
    using assms(1) assms(2) by (auto simp: Children_count_Inr split: if_splits)
  have un: "\<forall>(name, child) \<in> set ws. \<not> is_SegmentedButton child \<Longrightarrow>
      entries d count (multiselect p) (enumerate k ws) =
        map (\<lambda>(name, child). keyed name child) (filter (\<lambda>(name, child). child \<noteq> NNull) ws)"
    for ws k
    by (induction ws arbitrary: k) (auto simp: entries_def annotate_unmatched)
  have "\<forall>(name, child) \<in> set (walk [] ?c). \<not> is_SegmentedButton child"
    using assms(4) by (force simp: slots_def)
  then have "entries d count (multiselect p) (enumerate 0 (walk [] ?c)) =
      map (\<lambda>(name, child). keyed name child)
        (filter (\<lambda>(name, child). child \<noteq> NNull) (walk [] ?c))"
    by (rule un)
  then show ?thesis
    using nn no cnt assms(2) assms(3)
      render_Inr [of d p "\<lparr>provider_value =
                  [(''value'', value_prop p), (''onValueChange'', onValueChange p)],
                view_style = Arr [styles_row, style p],
                view_children =
                  NArray (map (\<lambda>(name, child). keyed name child)
                            (filter (\<lambda>(name, child). child \<noteq> NNull)
                               (walk [] (children p))))\<rparr>"]
    by simp
qed

theorem no_buttons_still_renders_witness:
  "Children_count (children captions) = Inr 2 \<and>
   filter is_SegmentedButton (slots (children captions)) = [] \<and>
   SegmentedButtonGroup None captions =
     Inr \<lparr>provider_value = [(''value'', Null), (''onValueChange'', Ref 0)],
          view_style = Arr [Obj [(''flexDirection'', Str ''row'')], Undefined],
          view_children = NArray
            [NElement \<lparr>el_type = Other ''Text'', el_key = Some ''.0'',
                       el_props = [(''children'', Str ''Align'')]\<rparr>,
             NText ''or'']\<rparr>"
proof -
  have a: "Children_count (children captions) = Inr 2"
    and c: "\<forall>n \<in> set (slots (children captions)). \<not> is_SegmentedButton n"
    and e: "filter is_SegmentedButton (slots (children captions)) = []"
    by (simp_all add: Children_count_def slots_def captions_def label_def)
  have b: "(2::nat) \<le> 2" "(2::nat) \<le> 5" by simp_all
  show ?thesis
    using no_buttons_still_renders [OF a b c, of None] a e
    by (simp add: captions_def label_def styles_row_def cloneAndReplaceKey_def
          toString36.simps digit36_def)
qed

section \<open>The default context\<close>

text \<open>
  C10. The default value of the exported context is the empty object. A consumer with no
  group above it gets that object, and reading \<open>value\<close> or \<open>onValueChange\<close> from it
  gives \<open>undefined\<close>: reading a property of an object does not throw, and there is no
  other default.
\<close>

theorem default_context_is_empty:
  "SegmentedButtonGroupContext = [] \<and>
   useContext SegmentedButtonGroupContext None = [] \<and>
   lookup (useContext SegmentedButtonGroupContext None) ''value'' = Undefined \<and>
   lookup (useContext SegmentedButtonGroupContext None) ''onValueChange'' = Undefined"
  by (simp add: SegmentedButtonGroupContext_def useContext_def lookup_def)

end
